theory Spec2Isabelle
  imports Main "HOL-Library.Word" "HOL-Library.Sublist" "HOL-Library.AList"
begin

section \<open>JavaScript strings\<close>

text \<open>
  A JavaScript string is a finite sequence of 16-bit code units. The ASCII text of the
  source's string literals is embedded by \<open>js\<close>.
\<close>

type_synonym code_unit = "16 word"
type_synonym jsstring = "code_unit list"

definition js :: "string \<Rightarrow> jsstring" where
  "js cs = map (\<lambda>c. of_nat (of_char c)) cs"

text \<open>
  \<open>Number.prototype.toString\<close> on a non-negative integer such as the reading of
  \<open>Date.now()\<close>: its decimal digits, most significant first, no leading zero.
\<close>

fun Number_toString :: "nat \<Rightarrow> jsstring" where
  "Number_toString n =
     (if n < 10 then [of_nat (48 + n)]
      else Number_toString (n div 10) @ [of_nat (48 + n mod 10)])"

declare Number_toString.simps [simp del]

section \<open>UIContext: the notification store\<close>

text \<open>
  \<^verbatim>\<open>
  interface Toast { id: string; message: string; type: "success" | "error" | "info" | "warning"; }
  \<close>
\<close>

datatype toast_type = Success | Error | Info | Warning

record Toast =
  toast_id :: jsstring
  message :: jsstring
  toast_type :: toast_type

text \<open>
  The only closure the provider hands to \<open>setTimeout\<close> is \<open>() => removeToast(id)\<close>;
  a pending timer is that closure with the delay it was registered with.
\<close>

datatype callback = RemoveToast jsstring

record timer =
  delay_ms :: nat
  callback :: callback

text \<open>
  The provider's two \<open>useState\<close> cells, and the timers it has registered with the
  event loop and that have not fired yet.
\<close>

record ui_state =
  isLoading :: bool
  toasts :: "Toast list"
  timers :: "timer list"

definition UIProvider_init :: ui_state where
  "UIProvider_init = \<lparr>isLoading = False, toasts = [], timers = []\<rparr>"

text \<open>What a call evaluates to: a function body without \<open>return\<close> yields \<open>undefined\<close>.\<close>

datatype js_result = Undefined | Returned jsstring

definition setIsLoading :: "bool \<Rightarrow> ui_state \<Rightarrow> ui_state" where
  "setIsLoading loading s = s\<lparr>isLoading := loading\<rparr>"

text \<open>
  \<^verbatim>\<open>
  const removeToast = (id: string) => {
    setToasts((prev) => prev.filter((toast) => toast.id !== id));
  };
  \<close>
\<close>

definition removeToast :: "jsstring \<Rightarrow> ui_state \<Rightarrow> ui_state" where
  "removeToast i s = s\<lparr>toasts := filter (\<lambda>toast. toast_id toast \<noteq> i) (toasts s)\<rparr>"

text \<open>
  \<^verbatim>\<open>
  const showToast = (message: string, type: Toast["type"] = "info") => {
    const id = Date.now().toString();
    const newToast: Toast = { id, message, type };
    setToasts((prev) => [...prev, newToast]);
    setTimeout(() => { removeToast(id); }, 3000);
  };
  \<close>
  The second argument is \<open>None\<close> when the caller omits it; \<open>now\<close> is what \<open>Date.now()\<close>
  reads, in milliseconds.
\<close>

definition showToast :: "jsstring \<Rightarrow> toast_type option \<Rightarrow> nat \<Rightarrow> ui_state \<Rightarrow> js_result \<times> ui_state" where
  "showToast msg type_arg now s =
     (let ty = (case type_arg of None \<Rightarrow> Info | Some t \<Rightarrow> t);
          i = Number_toString now;
          newToast = \<lparr>toast_id = i, message = msg, toast_type = ty\<rparr>
      in (Undefined,
          s\<lparr>toasts := toasts s @ [newToast],
            timers := timers s @ [\<lparr>delay_ms = 3000, callback = RemoveToast i\<rparr>]\<rparr>))"

text \<open>
  The event loop running a pending timer: the timer leaves the queue and its closure runs.
  A position that holds no timer changes nothing.
\<close>

fun run_callback :: "callback \<Rightarrow> ui_state \<Rightarrow> ui_state" where
  "run_callback (RemoveToast i) s = removeToast i s"

definition fire_timer :: "nat \<Rightarrow> ui_state \<Rightarrow> ui_state" where
  "fire_timer k s =
     (if k < length (timers s)
      then run_callback (callback (timers s ! k))
             (s\<lparr>timers := take k (timers s) @ drop (Suc k) (timers s)\<rparr>)
      else s)"

text \<open>A run of \<open>showToast\<close> calls, each with its message, severity and clock reading.\<close>

fun showToasts :: "(jsstring \<times> toast_type option \<times> nat) list \<Rightarrow> ui_state \<Rightarrow> ui_state" where
  "showToasts [] s = s"
| "showToasts ((msg, ty, now) # calls) s = showToasts calls (snd (showToast msg ty now s))"

section \<open>JSON text\<close>

text \<open>
  The values \<open>JSON.parse\<close> can produce. A number keeps the text of its literal (the
  conversion to a double is not modelled); an object keeps its properties in the order
  of their creation.
\<close>

datatype json =
    JNull
  | JBool bool
  | JNumber jsstring
  | JString jsstring
  | JArray "json list"
  | JObject "(jsstring \<times> json) list"

abbreviation QUOTE :: code_unit where "QUOTE \<equiv> 0x22"
abbreviation BACKSLASH :: code_unit where "BACKSLASH \<equiv> 0x5C"
abbreviation LBRACE :: code_unit where "LBRACE \<equiv> 0x7B"
abbreviation RBRACE :: code_unit where "RBRACE \<equiv> 0x7D"
abbreviation LBRACKET :: code_unit where "LBRACKET \<equiv> 0x5B"
abbreviation RBRACKET :: code_unit where "RBRACKET \<equiv> 0x5D"
abbreviation COLON :: code_unit where "COLON \<equiv> 0x3A"
abbreviation COMMA :: code_unit where "COMMA \<equiv> 0x2C"

subsection \<open>\<open>JSON.stringify\<close>: quoting a string\<close>

definition hex_digit :: "nat \<Rightarrow> code_unit" where
  "hex_digit d = (if d < 10 then of_nat (48 + d) else of_nat (87 + d))"

text \<open>\<open>UnicodeEscape\<close>: a backslash, \<open>u\<close>, and four lowercase hexadecimal digits.\<close>

definition UnicodeEscape :: "code_unit \<Rightarrow> jsstring" where
  "UnicodeEscape c =
     (let n = unat c
      in [BACKSLASH, 0x75, hex_digit (n div 4096), hex_digit (n div 256 mod 16),
          hex_digit (n div 16 mod 16), hex_digit (n mod 16)])"

definition is_leading_surrogate :: "code_unit \<Rightarrow> bool" where
  "is_leading_surrogate c = (0xD800 \<le> c \<and> c \<le> 0xDBFF)"

definition is_trailing_surrogate :: "code_unit \<Rightarrow> bool" where
  "is_trailing_surrogate c = (0xDC00 \<le> c \<and> c \<le> 0xDFFF)"

text \<open>
  One code point that is a single code unit, as \<open>QuoteJSONString\<close> writes it: the
  short escapes of its table, a \<open>\u\<close> escape for the other control characters and for
  a surrogate that stands alone, and the unit itself otherwise.
\<close>

definition quote_unit :: "code_unit \<Rightarrow> jsstring" where
  "quote_unit c =
     (if c = 0x08 then [BACKSLASH, 0x62]
      else if c = 0x09 then [BACKSLASH, 0x74]
      else if c = 0x0A then [BACKSLASH, 0x6E]
      else if c = 0x0C then [BACKSLASH, 0x66]
      else if c = 0x0D then [BACKSLASH, 0x72]
      else if c = QUOTE then [BACKSLASH, QUOTE]
      else if c = BACKSLASH then [BACKSLASH, BACKSLASH]
      else if c < 0x20 \<or> is_leading_surrogate c \<or> is_trailing_surrogate c then UnicodeEscape c
      else [c])"

text \<open>A leading surrogate followed by a trailing one is one code point and is copied.\<close>

fun quote_units :: "jsstring \<Rightarrow> jsstring" where
  "quote_units [] = []"
| "quote_units [c] = quote_unit c"
| "quote_units (c # d # cs) =
     (if is_leading_surrogate c \<and> is_trailing_surrogate d then c # d # quote_units cs
      else quote_unit c @ quote_units (d # cs))"

definition QuoteJSONString :: "jsstring \<Rightarrow> jsstring" where
  "QuoteJSONString v = QUOTE # quote_units v @ [QUOTE]"

subsection \<open>\<open>JSON.parse\<close>\<close>

definition is_ws :: "code_unit \<Rightarrow> bool" where
  "is_ws c = (c = 0x09 \<or> c = 0x0A \<or> c = 0x0D \<or> c = 0x20)"

definition skip_ws :: "jsstring \<Rightarrow> jsstring" where
  "skip_ws cs = dropWhile is_ws cs"

definition is_digit :: "code_unit \<Rightarrow> bool" where
  "is_digit c = (0x30 \<le> c \<and> c \<le> 0x39)"

definition hex_value :: "code_unit \<Rightarrow> nat option" where
  "hex_value c =
     (if 0x30 \<le> c \<and> c \<le> 0x39 then Some (unat c - 48)
      else if 0x61 \<le> c \<and> c \<le> 0x66 then Some (unat c - 87)
      else if 0x41 \<le> c \<and> c \<le> 0x46 then Some (unat c - 55)
      else None)"

definition hex4 :: "code_unit \<Rightarrow> code_unit \<Rightarrow> code_unit \<Rightarrow> code_unit \<Rightarrow> code_unit option" where
  "hex4 a b c d =
     (case (hex_value a, hex_value b, hex_value c, hex_value d) of
        (Some p, Some q, Some r, Some s) \<Rightarrow> Some (of_nat (((p * 16 + q) * 16 + r) * 16 + s))
      | _ \<Rightarrow> None)"

text \<open>The character a one-letter escape stands for.\<close>

definition escape_char :: "code_unit \<Rightarrow> code_unit option" where
  "escape_char e =
     (if e = QUOTE then Some QUOTE
      else if e = 0x2F then Some 0x2F
      else if e = BACKSLASH then Some BACKSLASH
      else if e = 0x62 then Some 0x08
      else if e = 0x66 then Some 0x0C
      else if e = 0x6E then Some 0x0A
      else if e = 0x72 then Some 0x0D
      else if e = 0x74 then Some 0x09
      else None)"

definition cons_result :: "code_unit \<Rightarrow> (jsstring \<times> jsstring) option \<Rightarrow> (jsstring \<times> jsstring) option" where
  "cons_result c r = (case r of None \<Rightarrow> None | Some (v, rest) \<Rightarrow> Some (c # v, rest))"

text \<open>
  The characters of a string literal after its opening quote, up to and including the
  closing quote: the value of the string and the text left after it.
\<close>

fun parse_string :: "jsstring \<Rightarrow> (jsstring \<times> jsstring) option" where
  "parse_string [] = None"
| "parse_string (c # cs) =
     (if c = QUOTE then Some ([], cs)
      else if c = BACKSLASH then
        (case cs of
           [] \<Rightarrow> None
         | e # es \<Rightarrow>
             if e = 0x75 then
               (case es of
                  h1 # h2 # h3 # h4 # rest \<Rightarrow>
                    (case hex4 h1 h2 h3 h4 of
                       None \<Rightarrow> None
                     | Some u \<Rightarrow> cons_result u (parse_string rest))
                | _ \<Rightarrow> None)
             else
               (case escape_char e of
                  None \<Rightarrow> None
                | Some u \<Rightarrow> cons_result u (parse_string es)))
      else if c < 0x20 then None
      else cons_result c (parse_string cs))"

text \<open>
  A number literal: an optional minus, an integer part without leading zero, an optional
  fraction and an optional exponent. The result is the literal and the text after it.
\<close>

definition parse_digits :: "jsstring \<Rightarrow> (jsstring \<times> jsstring) option" where
  "parse_digits cs =
     (if takeWhile is_digit cs = [] then None
      else Some (takeWhile is_digit cs, dropWhile is_digit cs))"

definition parse_int_part :: "jsstring \<Rightarrow> (jsstring \<times> jsstring) option" where
  "parse_int_part cs =
     (case cs of
        [] \<Rightarrow> None
      | d # ds \<Rightarrow> if d = 0x30 then Some ([d], ds) else parse_digits cs)"

definition parse_fraction :: "jsstring \<Rightarrow> (jsstring \<times> jsstring) option" where
  "parse_fraction cs =
     (case cs of
        [] \<Rightarrow> Some ([], cs)
      | c # ds \<Rightarrow>
          if c = 0x2E then
            (case parse_digits ds of None \<Rightarrow> None | Some (f, rest) \<Rightarrow> Some (c # f, rest))
          else Some ([], cs))"

definition parse_exponent :: "jsstring \<Rightarrow> (jsstring \<times> jsstring) option" where
  "parse_exponent cs =
     (case cs of
        [] \<Rightarrow> Some ([], cs)
      | c # ds \<Rightarrow>
          if c = 0x65 \<or> c = 0x45 then
            (case ds of
               [] \<Rightarrow> None
             | g # gs \<Rightarrow>
                 if g = 0x2B \<or> g = 0x2D then
                   (case parse_digits gs of
                      None \<Rightarrow> None
                    | Some (x, rest) \<Rightarrow> Some (c # g # x, rest))
                 else
                   (case parse_digits ds of
                      None \<Rightarrow> None
                    | Some (x, rest) \<Rightarrow> Some (c # x, rest)))
          else Some ([], cs))"

definition parse_number :: "jsstring \<Rightarrow> (jsstring \<times> jsstring) option" where
  "parse_number cs =
     (let (sign, r0) = (case cs of [] \<Rightarrow> ([], cs) | c # r \<Rightarrow> if c = 0x2D then ([c], r) else ([], cs))
      in case parse_int_part r0 of
           None \<Rightarrow> None
         | Some (i, r1) \<Rightarrow>
             (case parse_fraction r1 of
                None \<Rightarrow> None
              | Some (f, r2) \<Rightarrow>
                  (case parse_exponent r2 of
                     None \<Rightarrow> None
                   | Some (x, r3) \<Rightarrow> Some (sign @ i @ f @ x, r3))))"

text \<open>
  A later member with the name of an earlier one replaces its value and keeps its place,
  as defining the property again on the object under construction does.
\<close>

definition define_property :: "jsstring \<Rightarrow> json \<Rightarrow> (jsstring \<times> json) list \<Rightarrow> (jsstring \<times> json) list" where
  "define_property k v ps = AList.update k v ps"

text \<open>
  Recursive descent over the text. The first argument bounds the number of nested calls;
  \<open>JSON_parse\<close> starts it above what a text of that length can need. \<open>parse_value\<close>
  expects the first character of a value and returns the value with the text after it;
  \<open>parse_elements\<close> and \<open>parse_members\<close> run after the opening bracket or brace of
  a non-empty array or object, collecting what they have read so far.
\<close>

fun parse_value :: "nat \<Rightarrow> jsstring \<Rightarrow> (json \<times> jsstring) option"
  and parse_elements :: "nat \<Rightarrow> jsstring \<Rightarrow> json list \<Rightarrow> (json \<times> jsstring) option"
  and parse_members :: "nat \<Rightarrow> jsstring \<Rightarrow> (jsstring \<times> json) list \<Rightarrow> (json \<times> jsstring) option"
where
  "parse_value 0 cs = None"
| "parse_value (Suc n) cs =
     (case cs of
        [] \<Rightarrow> None
      | c # r \<Rightarrow>
          if c = LBRACE then
            (case skip_ws r of
               [] \<Rightarrow> None
             | d # r' \<Rightarrow> if d = RBRACE then Some (JObject [], r') else parse_members n (d # r') [])
          else if c = LBRACKET then
            (case skip_ws r of
               [] \<Rightarrow> None
             | d # r' \<Rightarrow> if d = RBRACKET then Some (JArray [], r') else parse_elements n (d # r') [])
          else if c = QUOTE then
            (case parse_string r of None \<Rightarrow> None | Some (v, rest) \<Rightarrow> Some (JString v, rest))
          else if take 4 cs = js ''true'' then Some (JBool True, drop 4 cs)
          else if take 5 cs = js ''false'' then Some (JBool False, drop 5 cs)
          else if take 4 cs = js ''null'' then Some (JNull, drop 4 cs)
          else
            (case parse_number cs of None \<Rightarrow> None | Some (v, rest) \<Rightarrow> Some (JNumber v, rest)))"
| "parse_elements 0 cs acc = None"
| "parse_elements (Suc n) cs acc =
     (case parse_value n cs of
        None \<Rightarrow> None
      | Some (v, r) \<Rightarrow>
          (case skip_ws r of
             [] \<Rightarrow> None
           | d # r' \<Rightarrow>
               if d = COMMA then parse_elements n (skip_ws r') (acc @ [v])
               else if d = RBRACKET then Some (JArray (acc @ [v]), r')
               else None))"
| "parse_members 0 cs acc = None"
| "parse_members (Suc n) cs acc =
     (case cs of
        [] \<Rightarrow> None
      | q # r \<Rightarrow>
          if q = QUOTE then
            (case parse_string r of
               None \<Rightarrow> None
             | Some (k, r1) \<Rightarrow>
                 (case skip_ws r1 of
                    [] \<Rightarrow> None
                  | c # r2 \<Rightarrow>
                      if c = COLON then
                        (case parse_value n (skip_ws r2) of
                           None \<Rightarrow> None
                         | Some (v, r3) \<Rightarrow>
                             (case skip_ws r3 of
                                [] \<Rightarrow> None
                              | d # r4 \<Rightarrow>
                                  if d = COMMA then parse_members n (skip_ws r4) (define_property k v acc)
                                  else if d = RBRACE then Some (JObject (define_property k v acc), r4)
                                  else None))
                      else None))
          else None)"

datatype exception = SyntaxError | Thrown string

text \<open>
  \<open>JSON.parse\<close>: one value, white space around it, nothing else; a \<open>SyntaxError\<close>
  otherwise.
\<close>

definition JSON_parse :: "jsstring \<Rightarrow> exception + json" where
  "JSON_parse text =
     (case parse_value (2 * length text + 2) (skip_ws text) of
        None \<Rightarrow> Inl SyntaxError
      | Some (v, rest) \<Rightarrow> if skip_ws rest = [] then Inr v else Inl SyntaxError)"

section \<open>AuthContext: the session store\<close>

text \<open>
  \<^verbatim>\<open>
  interface User { id: string; email: string; name: string; }
  \<close>
\<close>

record User =
  user_id :: jsstring
  email :: jsstring
  name :: jsstring

text \<open>The object a \<open>User\<close> is at run time, its properties in the order of the interface.\<close>

definition User_value :: "User \<Rightarrow> json" where
  "User_value u =
     JObject [(js ''id'', JString (user_id u)), (js ''email'', JString (email u)),
              (js ''name'', JString (name u))]"

text \<open>
  \<open>JSON.stringify\<close> on such an object (\<open>SerializeJSONObject\<close> without indentation):
  each property as its quoted name, a colon and its quoted value, separated by commas,
  in braces.
\<close>

definition JSON_stringify_User :: "User \<Rightarrow> jsstring" where
  "JSON_stringify_User u =
     [LBRACE] @ QuoteJSONString (js ''id'') @ [COLON] @ QuoteJSONString (user_id u) @
     [COMMA] @ QuoteJSONString (js ''email'') @ [COLON] @ QuoteJSONString (email u) @
     [COMMA] @ QuoteJSONString (js ''name'') @ [COLON] @ QuoteJSONString (name u) @
     [RBRACE]"

text \<open>\<open>localStorage\<close>: the browser's map from keys to text, which outlives the page.\<close>

type_synonym Storage = "jsstring \<rightharpoonup> jsstring"

definition getItem :: "jsstring \<Rightarrow> Storage \<Rightarrow> jsstring option" where
  "getItem k ls = ls k"

definition setItem :: "jsstring \<Rightarrow> jsstring \<Rightarrow> Storage \<Rightarrow> Storage" where
  "setItem k v ls = ls(k \<mapsto> v)"

definition removeItem :: "jsstring \<Rightarrow> Storage \<Rightarrow> Storage" where
  "removeItem k ls = ls(k := None)"

definition wasteless_user :: jsstring where
  "wasteless_user = js ''wasteless_user''"

text \<open>
  The provider's \<open>useState\<close> cell (\<open>JNull\<close> is \<open>null\<close>; types are erased at run time,
  so the cell holds whatever \<open>JSON.parse\<close> returned) and the storage it reads and writes.
\<close>

record auth_state =
  user :: json
  localStorage :: Storage

text \<open>
  \<^verbatim>\<open>
  useEffect(() => {
    const savedUser = localStorage.getItem("wasteless_user");
    if (savedUser) {
      try {
        setUser(JSON.parse(savedUser));
      } catch (error) {
        console.error("Failed to parse saved user:", error);
        localStorage.removeItem("wasteless_user");
      }
    }
  }, []);
  \<close>
  The empty string is falsy. The result is \<open>Inl\<close> when an exception leaves the effect.
  Writing to the console is left out.
\<close>

definition restore :: "auth_state \<Rightarrow> exception + auth_state" where
  "restore s =
     (case getItem wasteless_user (localStorage s) of
        None \<Rightarrow> Inr s
      | Some savedUser \<Rightarrow>
          if savedUser = [] then Inr s
          else
            (case JSON_parse savedUser of
               Inr v \<Rightarrow> Inr (s\<lparr>user := v\<rparr>)
             | Inl error \<Rightarrow> Inr (s\<lparr>localStorage := removeItem wasteless_user (localStorage s)\<rparr>)))"

text \<open>Mounting the provider: \<open>useState<User | null>(null)\<close>, then the effect.\<close>

definition AuthProvider_mount :: "Storage \<Rightarrow> exception + auth_state" where
  "AuthProvider_mount ls = restore \<lparr>user = JNull, localStorage = ls\<rparr>"

text \<open>
  \<^verbatim>\<open>
  const login = (userData: User) => {
    setUser(userData);
    localStorage.setItem("wasteless_user", JSON.stringify(userData));
  };
  const logout = () => {
    setUser(null);
    localStorage.removeItem("wasteless_user");
  };
  \<close>
\<close>

definition login :: "User \<Rightarrow> auth_state \<Rightarrow> auth_state" where
  "login userData s =
     s\<lparr>user := User_value userData,
       localStorage := setItem wasteless_user (JSON_stringify_User userData) (localStorage s)\<rparr>"

definition logout :: "auth_state \<Rightarrow> auth_state" where
  "logout s = s\<lparr>user := JNull, localStorage := removeItem wasteless_user (localStorage s)\<rparr>"

text \<open>
  What the provider hands to its consumers on each render:
  \<^verbatim>\<open>
  const isAuthenticated = user !== null;
  const value = { user, login, logout, isAuthenticated };
  \<close>
\<close>

record auth_value =
  v_user :: json
  v_isAuthenticated :: bool

definition AuthProvider_value :: "auth_state \<Rightarrow> auth_value" where
  "AuthProvider_value s = \<lparr>v_user = user s, v_isAuthenticated = (user s \<noteq> JNull)\<rparr>"

record ui_value =
  v_isLoading :: bool
  v_toasts :: "Toast list"

definition UIProvider_value :: "ui_state \<Rightarrow> ui_value" where
  "UIProvider_value s = \<lparr>v_isLoading = isLoading s, v_toasts = toasts s\<rparr>"

text \<open>
  What the slot stands for when the store starts: nothing when it is absent, empty or
  not JSON, the parsed value otherwise.
\<close>

definition slot_value :: "Storage \<Rightarrow> json" where
  "slot_value ls =
     (case getItem wasteless_user ls of
        None \<Rightarrow> JNull
      | Some raw \<Rightarrow> if raw = [] then JNull else (case JSON_parse raw of Inl e \<Rightarrow> JNull | Inr v \<Rightarrow> v))"

definition consistent :: "auth_state \<Rightarrow> bool" where
  "consistent s = (user s = slot_value (localStorage s))"

subsection \<open>Renders\<close>

text \<open>
  The provider between renders. \<open>setUser\<close> does not change the cell the consumers
  were handed: it queues the new value, and React renders the provider again, with the
  queued value in the cell, once the handler or effect that called it has returned.
  Writes to \<open>localStorage\<close> happen at once. \<open>renders\<close> keeps what each render
  handed to the consumers, with the storage as it was at that moment. (Where React
  skips a render because the queued value is the one already shown, this model renders
  the same state once more.)
\<close>

record provider_run =
  current :: auth_state
  queued :: "json option"
  renders :: "auth_state list"

definition setUser :: "json \<Rightarrow> provider_run \<Rightarrow> provider_run" where
  "setUser v p = p\<lparr>queued := Some v\<rparr>"

definition localStorage_setItem :: "jsstring \<Rightarrow> jsstring \<Rightarrow> provider_run \<Rightarrow> provider_run" where
  "localStorage_setItem k v p =
     p\<lparr>current := (current p)\<lparr>localStorage := setItem k v (localStorage (current p))\<rparr>\<rparr>"

definition localStorage_removeItem :: "jsstring \<Rightarrow> provider_run \<Rightarrow> provider_run" where
  "localStorage_removeItem k p =
     p\<lparr>current := (current p)\<lparr>localStorage := removeItem k (localStorage (current p))\<rparr>\<rparr>"

definition render :: "provider_run \<Rightarrow> provider_run" where
  "render p =
     (let s = (case queued p of None \<Rightarrow> current p | Some v \<Rightarrow> (current p)\<lparr>user := v\<rparr>)
      in p\<lparr>current := s, queued := None, renders := renders p @ [s]\<rparr>)"

definition rerender_if_queued :: "provider_run \<Rightarrow> provider_run" where
  "rerender_if_queued p = (if queued p = None then p else render p)"

text \<open>
  The handlers statement by statement, \<open>setUser\<close> first and the storage second as in
  the source, then the render that follows the handler.
\<close>

definition run_login :: "User \<Rightarrow> provider_run \<Rightarrow> provider_run" where
  "run_login userData p =
     rerender_if_queued
       (localStorage_setItem wasteless_user (JSON_stringify_User userData)
          (setUser (User_value userData) p))"

definition run_logout :: "provider_run \<Rightarrow> provider_run" where
  "run_logout p =
     rerender_if_queued (localStorage_removeItem wasteless_user (setUser JNull p))"

text \<open>The body of the effect, statement by statement.\<close>

definition run_effect :: "provider_run \<Rightarrow> provider_run" where
  "run_effect p =
     (case getItem wasteless_user (localStorage (current p)) of
        None \<Rightarrow> p
      | Some savedUser \<Rightarrow>
          if savedUser = [] then p
          else
            (case JSON_parse savedUser of
               Inr v \<Rightarrow> setUser v p
             | Inl error \<Rightarrow> localStorage_removeItem wasteless_user p))"

text \<open>
  Mounting: the first render with \<open>useState<User | null>(null)\<close>, in which the
  children are rendered, then the effect, then the render its \<open>setUser\<close> asks for.
\<close>

definition run_mount :: "Storage \<Rightarrow> provider_run" where
  "run_mount ls =
     rerender_if_queued
       (run_effect (render \<lparr>current = \<lparr>user = JNull, localStorage = ls\<rparr>, queued = None, renders = []\<rparr>))"

section \<open>The accessor hooks\<close>

text \<open>
  A component sees the providers above it in the tree, the nearest first.
  \<open>useContext\<close> gives the value of the nearest provider of the context, and the default
  the context was created with, \<open>undefined\<close>, when there is none:
  \<^verbatim>\<open>
  const AuthContext = createContext<AuthContextType | undefined>(undefined);
  const UIContext = createContext<UIContextType | undefined>(undefined);
  \<close>
\<close>

datatype provider = AuthContext_Provider auth_value | UIContext_Provider ui_value

fun useContext_AuthContext :: "provider list \<Rightarrow> auth_value option" where
  "useContext_AuthContext [] = None"
| "useContext_AuthContext (AuthContext_Provider v # ps) = Some v"
| "useContext_AuthContext (UIContext_Provider v # ps) = useContext_AuthContext ps"

fun useContext_UIContext :: "provider list \<Rightarrow> ui_value option" where
  "useContext_UIContext [] = None"
| "useContext_UIContext (UIContext_Provider v # ps) = Some v"
| "useContext_UIContext (AuthContext_Provider v # ps) = useContext_UIContext ps"

text \<open>
  \<^verbatim>\<open>
  export function useAuth() {
    const context = useContext(AuthContext);
    if (context === undefined) {
      throw new Error("useAuth must be used within an AuthProvider");
    }
    return context;
  }
  \<close>
  and \<open>useUI\<close> alike.
\<close>

definition useAuth :: "provider list \<Rightarrow> exception + auth_value" where
  "useAuth ancestors =
     (case useContext_AuthContext ancestors of
        None \<Rightarrow> Inl (Thrown ''useAuth must be used within an AuthProvider'')
      | Some context \<Rightarrow> Inr context)"

definition useUI :: "provider list \<Rightarrow> exception + ui_value" where
  "useUI ancestors =
     (case useContext_UIContext ancestors of
        None \<Rightarrow> Inl (Thrown ''useUI must be used within a UIProvider'')
      | Some context \<Rightarrow> Inr context)"

section \<open>The notification store: properties\<close>

lemma toasts_removeToast [simp]:
  "toasts (removeToast i s) = filter (\<lambda>toast. toast_id toast \<noteq> i) (toasts s)"
  by (simp add: removeToast_def)

lemma removeToast_rest [simp]:
  "isLoading (removeToast i s) = isLoading s" "timers (removeToast i s) = timers s"
  by (simp_all add: removeToast_def)

lemma toasts_showToast [simp]:
  "toasts (snd (showToast msg ty now s)) =
     toasts s @ [\<lparr>toast_id = Number_toString now, message = msg,
                  toast_type = (case ty of None \<Rightarrow> Info | Some t \<Rightarrow> t)\<rparr>]"
  by (simp add: showToast_def Let_def)

lemma timers_showToast [simp]:
  "timers (snd (showToast msg ty now s)) =
     timers s @ [\<lparr>delay_ms = 3000, callback = RemoveToast (Number_toString now)\<rparr>]"
  by (simp add: showToast_def Let_def)

lemma isLoading_showToast [simp]: "isLoading (snd (showToast msg ty now s)) = isLoading s"
  by (simp add: showToast_def Let_def)

lemma fst_showToast [simp]: "fst (showToast msg ty now s) = Undefined"
  by (simp add: showToast_def Let_def)

lemma count_list_filter_keep:
  "P t \<Longrightarrow> count_list (filter P xs) t = count_list xs t"
  by (induction xs) auto

lemma filter_all_kept: "(\<forall>t\<in>set xs. P t) \<Longrightarrow> filter P xs = xs"
  by (induction xs) auto

lemma removeToast_absent: "\<forall>t\<in>set (toasts s). toast_id t \<noteq> i \<Longrightarrow> removeToast i s = s"
  by (simp add: removeToast_def filter_all_kept)

lemma removeToast_twice: "removeToast i (removeToast i s) = removeToast i s"
  by (simp add: removeToast_def)

lemma toasts_fire_timer:
  "k < length (timers s) \<Longrightarrow> callback (timers s ! k) = RemoveToast i \<Longrightarrow>
   toasts (fire_timer k s) = filter (\<lambda>toast. toast_id toast \<noteq> i) (toasts s)"
  by (simp add: fire_timer_def)

text \<open>Every call of a run appends its toast, so the messages appear in call order.\<close>

lemma showToasts_messages:
  "map message (toasts (showToasts calls s)) = map message (toasts s) @ map fst calls"
  by (induction calls s rule: showToasts.induct) simp_all

lemma showToasts_ids:
  "map toast_id (toasts (showToasts calls s)) =
     map toast_id (toasts s) @ map (\<lambda>(msg, ty, now). Number_toString now) calls"
  by (induction calls s rule: showToasts.induct) simp_all

lemma Number_toString_not_empty: "Number_toString n \<noteq> []"
  by (subst Number_toString.simps) simp

lemma last_Number_toString: "last (Number_toString n) = of_nat (48 + n mod 10)"
  by (subst Number_toString.simps) simp

lemma butlast_Number_toString:
  "butlast (Number_toString n) = (if n < 10 then [] else Number_toString (n div 10))"
  by (subst Number_toString.simps) simp

lemma digit_unit_inj:
  assumes "(of_nat (48 + a) :: code_unit) = of_nat (48 + b)" "a < 10" "b < 10"
  shows "a = b"
proof -
  from assms(1) have "unat (of_nat (48 + a) :: code_unit) = unat (of_nat (48 + b) :: code_unit)"
    by (rule arg_cong)
  then have "(48 + a) mod 2 ^ LENGTH(16) = (48 + b) mod 2 ^ LENGTH(16)"
    by (simp only: unat_of_nat)
  with assms(2,3) show ?thesis
    by simp
qed

lemma Number_toString_inj: "Number_toString n = Number_toString m \<Longrightarrow> n = m"
proof (induction n arbitrary: m rule: less_induct)
  case (less n)
  from less.prems have "last (Number_toString n) = last (Number_toString m)"
    by simp
  then have units: "n mod 10 = m mod 10"
    by (simp only: last_Number_toString) (rule digit_unit_inj, simp_all)
  from less.prems have front: "butlast (Number_toString n) = butlast (Number_toString m)"
    by simp
  have tens: "n div 10 = m div 10"
  proof (cases "n < 10")
    case True
    with front have "m < 10"
      using Number_toString_not_empty [of "m div 10"]
      by (simp add: butlast_Number_toString split: if_splits)
    with True show ?thesis by simp
  next
    case False
    with front have m: "\<not> m < 10"
      using Number_toString_not_empty [of "n div 10"]
      by (simp add: butlast_Number_toString split: if_splits)
    with False front have "Number_toString (n div 10) = Number_toString (m div 10)"
      by (simp add: butlast_Number_toString)
    moreover from False have "n div 10 < n"
      by simp
    ultimately show ?thesis
      by (rule less.IH [rotated])
  qed
  from units tens show ?case
    by (metis div_mult_mod_eq)
qed

text \<open>Calls with different clock readings do get different ids.\<close>

lemma showToasts_ids_distinct:
  assumes "distinct (map (\<lambda>(msg, ty, now). now) calls)"
  shows "distinct (map toast_id (toasts (showToasts calls UIProvider_init)))"
proof -
  have "map (\<lambda>(msg, ty, now). Number_toString now) calls =
      map Number_toString (map (\<lambda>(msg, ty, now). now) calls)"
    by (induction calls) auto
  then have ids: "map toast_id (toasts (showToasts calls UIProvider_init)) =
      map Number_toString (map (\<lambda>(msg, ty, now). now) calls)"
    by (simp add: showToasts_ids UIProvider_init_def)
  have "inj_on Number_toString (set (map (\<lambda>(msg, ty, now). now) calls))"
    by (rule inj_onI) (rule Number_toString_inj)
  with assms have "distinct (map Number_toString (map (\<lambda>(msg, ty, now). now) calls))"
    using distinct_map [of Number_toString "map (\<lambda>(msg, ty, now). now) calls"] by blast
  with ids show ?thesis
    by simp
qed

text \<open>
  C1 (the code departs from it): calls of \<open>showToast\<close> in quick succession each get an id
  of their own, and all their toasts are in the list in call order. The id is the decimal
  text of \<open>Date.now()\<close>, so two calls within one millisecond get the same id: both
  toasts are in the list, in call order, under one id, and removing that id removes
  both.
\<close>

theorem showToast_same_tick_collision:
  "map toast_id (toasts (showToasts
      [(js ''first'', Some Info, 1700000000000),
       (js ''second'', Some Success, 1700000000000)] UIProvider_init)) =
     [Number_toString 1700000000000, Number_toString 1700000000000] \<and>
   \<not> distinct (map toast_id (toasts (showToasts
      [(js ''first'', Some Info, 1700000000000),
       (js ''second'', Some Success, 1700000000000)] UIProvider_init))) \<and>
   map message (toasts (showToasts
      [(js ''first'', Some Info, 1700000000000),
       (js ''second'', Some Success, 1700000000000)] UIProvider_init)) =
     [js ''first'', js ''second''] \<and>
   toasts (removeToast (Number_toString 1700000000000) (showToasts
      [(js ''first'', Some Info, 1700000000000),
       (js ''second'', Some Success, 1700000000000)] UIProvider_init)) = []"
  by (simp add: UIProvider_init_def)

text \<open>
  C2, as stated: \<open>showToast\<close> returns the id it assigned. It does not: the function has
  no \<open>return\<close> and its declared type is \<open>void\<close>.
\<close>

theorem showToast_returns_no_id:
  "fst (showToast (js ''x'') (Some Success) 1700000000000 UIProvider_init) = Undefined \<and>
   fst (showToast (js ''x'') (Some Success) 1700000000000 UIProvider_init) \<noteq>
     Returned (toast_id (last (toasts (snd
       (showToast (js ''x'') (Some Success) 1700000000000 UIProvider_init)))))"
  by simp

text \<open>
  C2, amended: for every message and every severity, \<open>showToast\<close> appends exactly one
  toast, with that message and severity, at the end of the list and leaves the toasts
  before it as they were; it registers one timer of 3000 ms (3 s) whose closure removes
  the toasts with the new id, so that no toast with that id is left once this timer has
  fired; and it returns nothing to the caller.
\<close>

theorem showToast_appends_and_schedules:
  "fst (showToast msg (Some ty) now s) = Undefined \<and>
   length (toasts (snd (showToast msg (Some ty) now s))) = Suc (length (toasts s)) \<and>
   butlast (toasts (snd (showToast msg (Some ty) now s))) = toasts s \<and>
   last (toasts (snd (showToast msg (Some ty) now s))) =
     \<lparr>toast_id = Number_toString now, message = msg, toast_type = ty\<rparr> \<and>
   timers (snd (showToast msg (Some ty) now s)) =
     timers s @ [\<lparr>delay_ms = 3 * 1000, callback = RemoveToast (Number_toString now)\<rparr>] \<and>
   (\<forall>t\<in>set (toasts (fire_timer (length (timers s)) (snd (showToast msg (Some ty) now s)))).
      toast_id t \<noteq> Number_toString now) \<and>
   isLoading (snd (showToast msg (Some ty) now s)) = isLoading s"
  by (simp add: fire_timer_def)

theorem showToast_appends_and_schedules_witness:
  "toasts (snd (showToast (js ''x'') (Some Success) 1700000003000 UIProvider_init)) =
     [\<lparr>toast_id = Number_toString 1700000003000, message = js ''x'', toast_type = Success\<rparr>] \<and>
   timers (snd (showToast (js ''x'') (Some Success) 1700000003000 UIProvider_init)) =
     [\<lparr>delay_ms = 3000, callback = RemoveToast (Number_toString 1700000003000)\<rparr>] \<and>
   toasts (fire_timer 0 (snd (showToast (js ''x'') (Some Success) 1700000003000 UIProvider_init))) = []"
  using showToast_appends_and_schedules [of "js ''x''" Success 1700000003000 UIProvider_init]
  by (simp add: UIProvider_init_def fire_timer_def)

text \<open>
  C6: \<open>removeToast\<close> is idempotent. When no toast has the id, also when the call comes
  from an expiry timer whose toast is already gone, the state is left as it is; a second
  call with the same id leaves the list, and so its length, as the first call left it.
  The function has no failing branch.
\<close>

theorem removeToast_idempotent:
  "((\<forall>t\<in>set (toasts s). toast_id t \<noteq> i) \<longrightarrow>
      removeToast i s = s \<and>
      (\<forall>k. k < length (timers s) \<and> callback (timers s ! k) = RemoveToast i \<longrightarrow>
           toasts (fire_timer k s) = toasts s)) \<and>
   removeToast i (removeToast i s) = removeToast i s \<and>
   length (toasts (removeToast i (removeToast i s))) = length (toasts (removeToast i s))"
  by (simp add: removeToast_absent removeToast_twice toasts_fire_timer filter_all_kept)

theorem removeToast_idempotent_witness:
  "js ''16'' \<notin> toast_id ` set (toasts \<lparr>isLoading = False,
        toasts = [\<lparr>toast_id = js ''17'', message = js ''Saved!'', toast_type = Success\<rparr>],
        timers = [\<lparr>delay_ms = 3000, callback = RemoveToast (js ''16'')\<rparr>]\<rparr>) \<and>
   removeToast (js ''16'') \<lparr>isLoading = False,
        toasts = [\<lparr>toast_id = js ''17'', message = js ''Saved!'', toast_type = Success\<rparr>],
        timers = [\<lparr>delay_ms = 3000, callback = RemoveToast (js ''16'')\<rparr>]\<rparr> =
     \<lparr>isLoading = False,
        toasts = [\<lparr>toast_id = js ''17'', message = js ''Saved!'', toast_type = Success\<rparr>],
        timers = [\<lparr>delay_ms = 3000, callback = RemoveToast (js ''16'')\<rparr>]\<rparr> \<and>
   0 < length (timers \<lparr>isLoading = False,
        toasts = [\<lparr>toast_id = js ''17'', message = js ''Saved!'', toast_type = Success\<rparr>],
        timers = [\<lparr>delay_ms = 3000, callback = RemoveToast (js ''16'')\<rparr>]\<rparr>) \<and>
   callback (timers \<lparr>isLoading = False,
        toasts = [\<lparr>toast_id = js ''17'', message = js ''Saved!'', toast_type = Success\<rparr>],
        timers = [\<lparr>delay_ms = 3000, callback = RemoveToast (js ''16'')\<rparr>]\<rparr> ! 0) = RemoveToast (js ''16'') \<and>
   toasts (fire_timer 0 \<lparr>isLoading = False,
        toasts = [\<lparr>toast_id = js ''17'', message = js ''Saved!'', toast_type = Success\<rparr>],
        timers = [\<lparr>delay_ms = 3000, callback = RemoveToast (js ''16'')\<rparr>]\<rparr>) =
     [\<lparr>toast_id = js ''17'', message = js ''Saved!'', toast_type = Success\<rparr>]"
  using removeToast_idempotent [of "\<lparr>isLoading = False,
        toasts = [\<lparr>toast_id = js ''17'', message = js ''Saved!'', toast_type = Success\<rparr>],
        timers = [\<lparr>delay_ms = 3000, callback = RemoveToast (js ''16'')\<rparr>]\<rparr>" "js ''16''"]
  by (simp add: js_def)

text \<open>
  C9: \<open>removeToast\<close> removes every toast whose id is the argument, not only the first,
  so toasts with one id go together. The toasts that stay are the other ones, each as
  often as before and in their old order, and nothing else of the state changes.
\<close>

theorem removeToast_removes_every_match:
  "(\<forall>t\<in>set (toasts (removeToast i s)). toast_id t \<noteq> i) \<and>
   subseq (toasts (removeToast i s)) (toasts s) \<and>
   (\<forall>t. toast_id t \<noteq> i \<longrightarrow> count_list (toasts (removeToast i s)) t = count_list (toasts s) t) \<and>
   isLoading (removeToast i s) = isLoading s \<and>
   timers (removeToast i s) = timers s"
  by (simp add: count_list_filter_keep)

theorem removeToast_removes_every_match_witness:
  "toasts (removeToast (js ''5'') \<lparr>isLoading = True,
      toasts = [\<lparr>toast_id = js ''5'', message = js ''a'', toast_type = Info\<rparr>,
                \<lparr>toast_id = js ''4'', message = js ''b'', toast_type = Error\<rparr>,
                \<lparr>toast_id = js ''5'', message = js ''c'', toast_type = Warning\<rparr>,
                \<lparr>toast_id = js ''6'', message = js ''d'', toast_type = Success\<rparr>],
      timers = []\<rparr>) =
     [\<lparr>toast_id = js ''4'', message = js ''b'', toast_type = Error\<rparr>,
      \<lparr>toast_id = js ''6'', message = js ''d'', toast_type = Success\<rparr>] \<and>
   js ''5'' \<notin> toast_id ` set (toasts (removeToast (js ''5'') \<lparr>isLoading = True,
      toasts = [\<lparr>toast_id = js ''5'', message = js ''a'', toast_type = Info\<rparr>,
                \<lparr>toast_id = js ''4'', message = js ''b'', toast_type = Error\<rparr>,
                \<lparr>toast_id = js ''5'', message = js ''c'', toast_type = Warning\<rparr>,
                \<lparr>toast_id = js ''6'', message = js ''d'', toast_type = Success\<rparr>],
      timers = []\<rparr>)) \<and>
   toast_id \<lparr>toast_id = js ''4'', message = js ''b'', toast_type = Error\<rparr> \<noteq> js ''5'' \<and>
   count_list (toasts (removeToast (js ''5'') \<lparr>isLoading = True,
      toasts = [\<lparr>toast_id = js ''5'', message = js ''a'', toast_type = Info\<rparr>,
                \<lparr>toast_id = js ''4'', message = js ''b'', toast_type = Error\<rparr>,
                \<lparr>toast_id = js ''5'', message = js ''c'', toast_type = Warning\<rparr>,
                \<lparr>toast_id = js ''6'', message = js ''d'', toast_type = Success\<rparr>],
      timers = []\<rparr>))
     \<lparr>toast_id = js ''4'', message = js ''b'', toast_type = Error\<rparr> = 1"
  using removeToast_removes_every_match [of "js ''5''" "\<lparr>isLoading = True,
      toasts = [\<lparr>toast_id = js ''5'', message = js ''a'', toast_type = Info\<rparr>,
                \<lparr>toast_id = js ''4'', message = js ''b'', toast_type = Error\<rparr>,
                \<lparr>toast_id = js ''5'', message = js ''c'', toast_type = Warning\<rparr>,
                \<lparr>toast_id = js ''6'', message = js ''d'', toast_type = Success\<rparr>],
      timers = []\<rparr>"]
  by (simp add: js_def)


section \<open>The accessor hooks: properties\<close>

lemma useContext_AuthContext_None:
  "useContext_AuthContext ps = None \<longleftrightarrow> (\<forall>v. AuthContext_Provider v \<notin> set ps)"
  by (induction ps rule: useContext_AuthContext.induct) auto

lemma useContext_AuthContext_Some:
  "useContext_AuthContext ps = Some v \<Longrightarrow> AuthContext_Provider v \<in> set ps"
  by (induction ps rule: useContext_AuthContext.induct) auto

lemma useContext_UIContext_None:
  "useContext_UIContext ps = None \<longleftrightarrow> (\<forall>v. UIContext_Provider v \<notin> set ps)"
  by (induction ps rule: useContext_UIContext.induct) auto

lemma useContext_UIContext_Some:
  "useContext_UIContext ps = Some v \<Longrightarrow> UIContext_Provider v \<in> set ps"
  by (induction ps rule: useContext_UIContext.induct) auto

text \<open>
  C8: a component with no provider of the store above it is outside the store's
  lifetime. There \<open>useAuth\<close> and \<open>useUI\<close> throw their configuration error, and
  whenever one of them returns a value it is the value of a provider above the caller,
  never a default.
\<close>

theorem accessor_outside_provider_throws:
  "((\<forall>v. AuthContext_Provider v \<notin> set ps) \<longrightarrow>
      useAuth ps = Inl (Thrown ''useAuth must be used within an AuthProvider'')) \<and>
   (\<forall>c. useAuth ps = Inr c \<longrightarrow> AuthContext_Provider c \<in> set ps) \<and>
   ((\<forall>v. UIContext_Provider v \<notin> set ps) \<longrightarrow>
      useUI ps = Inl (Thrown ''useUI must be used within a UIProvider'')) \<and>
   (\<forall>c. useUI ps = Inr c \<longrightarrow> UIContext_Provider c \<in> set ps)"
proof -
  have auth_out: "(\<forall>v. AuthContext_Provider v \<notin> set ps) \<longrightarrow>
      useAuth ps = Inl (Thrown ''useAuth must be used within an AuthProvider'')"
    using useContext_AuthContext_None [of ps] by (auto simp: useAuth_def)
  have auth_in: "\<forall>c. useAuth ps = Inr c \<longrightarrow> AuthContext_Provider c \<in> set ps"
    by (auto simp: useAuth_def split: option.splits dest: useContext_AuthContext_Some)
  have ui_out: "(\<forall>v. UIContext_Provider v \<notin> set ps) \<longrightarrow>
      useUI ps = Inl (Thrown ''useUI must be used within a UIProvider'')"
    using useContext_UIContext_None [of ps] by (auto simp: useUI_def)
  have ui_in: "\<forall>c. useUI ps = Inr c \<longrightarrow> UIContext_Provider c \<in> set ps"
    by (auto simp: useUI_def split: option.splits dest: useContext_UIContext_Some)
  from auth_out auth_in ui_out ui_in show ?thesis by blast
qed

theorem accessor_outside_provider_throws_witness:
  "(\<forall>v. AuthContext_Provider v \<notin> set [UIContext_Provider (UIProvider_value UIProvider_init)]) \<and>
   useAuth [UIContext_Provider (UIProvider_value UIProvider_init)] =
     Inl (Thrown ''useAuth must be used within an AuthProvider'') \<and>
   useUI [UIContext_Provider (UIProvider_value UIProvider_init)] =
     Inr (UIProvider_value UIProvider_init) \<and>
   UIContext_Provider (UIProvider_value UIProvider_init) \<in>
     set [UIContext_Provider (UIProvider_value UIProvider_init)] \<and>
   (\<forall>v. UIContext_Provider v \<notin> set []) \<and>
   useUI [] = Inl (Thrown ''useUI must be used within a UIProvider'')"
  using accessor_outside_provider_throws [of "[UIContext_Provider (UIProvider_value UIProvider_init)]"]
    accessor_outside_provider_throws [of "[]"]
  by (simp add: useUI_def)

section \<open>JSON text: what \<open>JSON.parse\<close> reads back from \<open>JSON.stringify\<close>\<close>

lemma hex_value_hex_digit: "d < 16 \<Longrightarrow> hex_value (hex_digit d) = Some d"
proof -
  assume "d < 16"
  then have "d = 0 \<or> d = 1 \<or> d = 2 \<or> d = 3 \<or> d = 4 \<or> d = 5 \<or> d = 6 \<or> d = 7 \<or> d = 8 \<or>
      d = 9 \<or> d = 10 \<or> d = 11 \<or> d = 12 \<or> d = 13 \<or> d = 14 \<or> d = 15"
    by arith
  then show ?thesis
    by (elim disjE) (simp_all add: hex_value_def hex_digit_def)
qed

lemma hex_positions:
  "((n div 4096 * 16 + n div 256 mod 16) * 16 + n div 16 mod 16) * 16 + n mod 16 = (n::nat)"
proof -
  have a: "n div 256 = n div 16 div 16"
    using div_mult2_eq [of n 16 16] by simp
  have b: "n div 4096 = n div 256 div 16"
    using div_mult2_eq [of n 256 16] by simp
  have "n div 4096 * 16 + n div 256 mod 16 = n div 256"
    unfolding b by (rule div_mult_mod_eq)
  moreover have "n div 256 * 16 + n div 16 mod 16 = n div 16"
    unfolding a by (rule div_mult_mod_eq)
  moreover have "n div 16 * 16 + n mod 16 = n"
    by (rule div_mult_mod_eq)
  ultimately show ?thesis
    by simp
qed

lemma hex4_UnicodeEscape:
  "hex4 (hex_digit (unat c div 4096)) (hex_digit (unat c div 256 mod 16))
        (hex_digit (unat c div 16 mod 16)) (hex_digit (unat c mod 16)) = Some (c::code_unit)"
proof -
  have "unat c < 65536"
    using unsigned_less [of c] by simp
  then have d3: "unat c div 4096 < 16"
    by simp
  have "hex4 (hex_digit (unat c div 4096)) (hex_digit (unat c div 256 mod 16))
        (hex_digit (unat c div 16 mod 16)) (hex_digit (unat c mod 16)) =
      Some (of_nat (((unat c div 4096 * 16 + unat c div 256 mod 16) * 16 + unat c div 16 mod 16) * 16 +
                     unat c mod 16))"
    unfolding hex4_def using d3 by (simp only: hex_value_hex_digit prod.case option.case mod_less_divisor zero_less_numeral)
  also have "\<dots> = Some (of_nat (unat c))"
    by (simp only: hex_positions)
  finally show ?thesis
    by simp
qed


lemma parse_string_UnicodeEscape:
  "parse_string (UnicodeEscape c @ tail) = cons_result c (parse_string tail)"
  by (simp add: UnicodeEscape_def Let_def hex4_UnicodeEscape)

lemma parse_string_plain:
  "c \<noteq> QUOTE \<Longrightarrow> c \<noteq> BACKSLASH \<Longrightarrow> \<not> c < 0x20 \<Longrightarrow>
   parse_string (c # tail) = cons_result c (parse_string tail)"
  by simp

lemma surrogate_plain:
  "is_leading_surrogate c \<or> is_trailing_surrogate c \<Longrightarrow> c \<noteq> QUOTE \<and> c \<noteq> BACKSLASH \<and> \<not> c < 0x20"
  by (auto simp: is_leading_surrogate_def is_trailing_surrogate_def word_le_nat_alt word_less_nat_alt)


lemma parse_string_quote_unit:
  "parse_string (quote_unit c @ tail) = cons_result c (parse_string tail)"
proof -
  consider (short) "c = 0x08 \<or> c = 0x09 \<or> c = 0x0A \<or> c = 0x0C \<or> c = 0x0D \<or> c = QUOTE \<or> c = BACKSLASH"
    | (escaped) "\<not> (c = 0x08 \<or> c = 0x09 \<or> c = 0x0A \<or> c = 0x0C \<or> c = 0x0D \<or> c = QUOTE \<or> c = BACKSLASH)"
        "c < 0x20 \<or> is_leading_surrogate c \<or> is_trailing_surrogate c"
    | (plain) "\<not> (c = 0x08 \<or> c = 0x09 \<or> c = 0x0A \<or> c = 0x0C \<or> c = 0x0D \<or> c = QUOTE \<or> c = BACKSLASH)"
        "\<not> (c < 0x20 \<or> is_leading_surrogate c \<or> is_trailing_surrogate c)"
    by blast
  then show ?thesis
  proof cases
    case short
    then show ?thesis
      by (elim disjE) (simp_all add: quote_unit_def escape_char_def)
  next
    case escaped
    then have "quote_unit c = UnicodeEscape c"
      by (simp add: quote_unit_def)
    then show ?thesis
      by (simp only: parse_string_UnicodeEscape)
  next
    case plain
    then have "quote_unit c = [c]"
      by (simp add: quote_unit_def)
    with plain show ?thesis
      by simp
  qed
qed

lemma cons_result_Some [simp]: "cons_result c (Some (v, rest)) = Some (c # v, rest)"
  by (simp add: cons_result_def)

lemma parse_string_quote_units:
  "parse_string (quote_units v @ QUOTE # rest) = Some (v, rest)"
proof (induction v rule: quote_units.induct)
  case 1
  show ?case by simp
next
  case (2 c)
  show ?case
    by (simp only: quote_units.simps parse_string_quote_unit) simp
next
  case (3 c d cs)
  show ?case
  proof (cases "is_leading_surrogate c \<and> is_trailing_surrogate d")
    case True
    then have c: "c \<noteq> QUOTE \<and> c \<noteq> BACKSLASH \<and> \<not> c < 0x20"
      and d: "d \<noteq> QUOTE \<and> d \<noteq> BACKSLASH \<and> \<not> d < 0x20"
      using surrogate_plain [of c] surrogate_plain [of d] by blast+
    from True have "quote_units (c # d # cs) = c # d # quote_units cs"
      by simp
    then have "parse_string (quote_units (c # d # cs) @ QUOTE # rest) =
        cons_result c (cons_result d (parse_string (quote_units cs @ QUOTE # rest)))"
      using c d by (simp del: quote_units.simps)
    with True 3 show ?thesis
      by simp
  next
    case False
    then have "quote_units (c # d # cs) = quote_unit c @ quote_units (d # cs)"
      by auto
    then have "parse_string (quote_units (c # d # cs) @ QUOTE # rest) =
        cons_result c (parse_string (quote_units (d # cs) @ QUOTE # rest))"
      by (simp only: append_assoc parse_string_quote_unit)
    with False 3 show ?thesis
      by simp
  qed
qed

lemma parse_string_QuoteJSONString:
  "parse_string (tl (QuoteJSONString v) @ rest) = Some (v, rest)"
  by (simp add: QuoteJSONString_def parse_string_quote_units)


lemma skip_ws_keep: "\<not> is_ws c \<Longrightarrow> skip_ws (c # cs) = c # cs"
  by (simp add: skip_ws_def)

lemma QuoteJSONString_Cons: "QuoteJSONString v @ rest = QUOTE # quote_units v @ QUOTE # rest"
  by (simp add: QuoteJSONString_def)

lemma skip_ws_QuoteJSONString: "skip_ws (QuoteJSONString v @ rest) = QuoteJSONString v @ rest"
  by (simp add: QuoteJSONString_def skip_ws_keep is_ws_def)

lemma parse_value_QuoteJSONString:
  "parse_value (Suc n) (QuoteJSONString v @ rest) = Some (JString v, rest)"
  by (simp add: QuoteJSONString_Cons parse_string_quote_units)

lemma parse_members_more:
  "parse_members (Suc (Suc n)) (QuoteJSONString k @ COLON # QuoteJSONString v @ COMMA # QUOTE # rest) acc =
     parse_members (Suc n) (QUOTE # rest) (define_property k (JString v) acc)"
proof -
  have "parse_members (Suc (Suc n)) (QUOTE # quote_units k @ QUOTE # COLON # QuoteJSONString v @ COMMA # QUOTE # rest) acc =
     parse_members (Suc n) (QUOTE # rest) (define_property k (JString v) acc)"
    unfolding parse_members.simps(2) [of "Suc n"]
    by (simp add: parse_string_quote_units skip_ws_keep is_ws_def parse_value_QuoteJSONString
        skip_ws_QuoteJSONString del: parse_value.simps parse_elements.simps parse_members.simps)
  then show ?thesis
    by (simp only: QuoteJSONString_Cons)
qed

lemma parse_members_last:
  "parse_members (Suc (Suc n)) (QuoteJSONString k @ COLON # QuoteJSONString v @ RBRACE # rest) acc =
     Some (JObject (define_property k (JString v) acc), rest)"
proof -
  have "parse_members (Suc (Suc n)) (QUOTE # quote_units k @ QUOTE # COLON # QuoteJSONString v @ RBRACE # rest) acc =
     Some (JObject (define_property k (JString v) acc), rest)"
    unfolding parse_members.simps(2) [of "Suc n"]
    by (simp add: parse_string_quote_units skip_ws_keep is_ws_def parse_value_QuoteJSONString
        skip_ws_QuoteJSONString del: parse_value.simps parse_elements.simps parse_members.simps)
  then show ?thesis
    by (simp only: QuoteJSONString_Cons)
qed


lemma parse_members_next:
  "parse_members (Suc (Suc n)) (QuoteJSONString k @ COLON # QuoteJSONString v @ COMMA # QuoteJSONString k' @ rest) acc =
     parse_members (Suc n) (QuoteJSONString k' @ rest) (define_property k (JString v) acc)"
  using parse_members_more [of n k v "quote_units k' @ QUOTE # rest" acc]
  by (simp only: QuoteJSONString_Cons)

lemma parse_value_object_start:
  "parse_value (Suc n) (LBRACE # QuoteJSONString k @ rest) = parse_members n (QuoteJSONString k @ rest) []"
  by (simp add: QuoteJSONString_Cons skip_ws_keep is_ws_def del: parse_members.simps)

lemma User_properties:
  "define_property (js ''name'') c (define_property (js ''email'') b (define_property (js ''id'') a [])) =
     [(js ''id'', a), (js ''email'', b), (js ''name'', c)]"
  by (simp add: define_property_def js_def)

lemma JSON_stringify_User_Cons:
  "JSON_stringify_User u @ rest =
     LBRACE # QuoteJSONString (js ''id'') @ COLON # QuoteJSONString (user_id u) @
     COMMA # QuoteJSONString (js ''email'') @ COLON # QuoteJSONString (email u) @
     COMMA # QuoteJSONString (js ''name'') @ COLON # QuoteJSONString (name u) @
     RBRACE # rest"
  by (simp add: JSON_stringify_User_def)

lemma parse_value_stringify_User:
  "parse_value (Suc (Suc (Suc (Suc (Suc k))))) (JSON_stringify_User u @ rest) = Some (User_value u, rest)"
  by (simp only: JSON_stringify_User_Cons parse_value_object_start parse_members_next
      parse_members_last User_properties User_value_def)

lemma length_JSON_stringify_User: "2 \<le> length (JSON_stringify_User u)"
  by (simp add: JSON_stringify_User_def)

lemma JSON_stringify_User_not_empty: "JSON_stringify_User u \<noteq> []"
  by (simp add: JSON_stringify_User_def)

lemma skip_ws_stringify_User: "skip_ws (JSON_stringify_User u) = JSON_stringify_User u"
  by (simp add: JSON_stringify_User_def skip_ws_keep is_ws_def)

lemma JSON_parse_stringify_User: "JSON_parse (JSON_stringify_User u) = Inr (User_value u)"
proof -
  have "2 * length (JSON_stringify_User u) + 2 =
      Suc (Suc (Suc (Suc (Suc (2 * length (JSON_stringify_User u) - 3)))))"
    using length_JSON_stringify_User [of u] by arith
  then have "parse_value (2 * length (JSON_stringify_User u) + 2) (JSON_stringify_User u @ []) =
      Some (User_value u, [])"
    by (simp only: parse_value_stringify_User)
  then have parsed: "parse_value (2 * length (JSON_stringify_User u) + 2) (JSON_stringify_User u) =
      Some (User_value u, [])"
    by (simp only: append_Nil2)
  have "skip_ws [] = []"
    by (simp add: skip_ws_def)
  then show ?thesis
    unfolding JSON_parse_def skip_ws_stringify_User parsed by simp
qed

lemma User_value_inj: "inj User_value"
  by (rule injI) (simp add: User_value_def)

subsection \<open>The bound on nested calls\<close>

lemma length_skip_ws: "length (skip_ws cs) \<le> length cs"
  by (simp add: skip_ws_def length_dropWhile_le)

lemma skip_ws_Cons_length: "skip_ws r = d # r' \<Longrightarrow> length r' < length r"
  using length_skip_ws [of r] by simp

lemma cons_result_SomeD:
  "cons_result c x = Some (v, r) \<Longrightarrow> \<exists>w. x = Some (w, r)"
  by (auto simp: cons_result_def split: option.splits)

lemma parse_string_length: "parse_string cs = Some (v, r) \<Longrightarrow> length r \<le> length cs"
proof (induction cs arbitrary: v r rule: length_induct)
  case (1 cs)
  show ?case
  proof (cases cs)
    case Nil
    with 1 show ?thesis by simp
  next
    case (Cons c tail)
    have shorter: "\<And>xs w. length xs < length cs \<Longrightarrow> parse_string xs = Some (w, r) \<Longrightarrow> length r \<le> length xs"
      using "1.IH" by blast
    from "1.prems" Cons show ?thesis
      by (auto simp: split: if_splits list.splits option.splits
          dest!: cons_result_SomeD dest: shorter [rotated])
  qed
qed


lemma parse_digits_length: "parse_digits cs = Some (v, r) \<Longrightarrow> length r \<le> length cs"
  by (auto simp: parse_digits_def length_dropWhile_le split: if_splits)

lemma parse_int_part_length: "parse_int_part cs = Some (v, r) \<Longrightarrow> length r \<le> length cs"
  by (auto simp: parse_int_part_def split: list.splits if_splits dest: parse_digits_length)

lemma parse_fraction_length: "parse_fraction cs = Some (v, r) \<Longrightarrow> length r \<le> length cs"
  by (auto simp: parse_fraction_def split: list.splits if_splits option.splits
      dest: parse_digits_length)

lemma parse_exponent_length: "parse_exponent cs = Some (v, r) \<Longrightarrow> length r \<le> length cs"
  by (auto simp: parse_exponent_def split: list.splits if_splits option.splits
      dest: parse_digits_length)

lemma parse_number_length:
  assumes "parse_number cs = Some (v, r)"
  shows "length r \<le> length cs"
proof -
  obtain sign r0 where s: "(case cs of [] \<Rightarrow> ([], cs) | c # t \<Rightarrow> if c = 0x2D then ([c], t) else ([], cs)) = (sign, r0)"
    by (cases "(case cs of [] \<Rightarrow> ([], cs) | c # t \<Rightarrow> if c = 0x2D then ([c], t) else ([], cs))") auto
  then have r0: "length r0 \<le> length cs"
    by (auto split: list.splits if_splits)
  from assms s obtain i r1 f r2 x where
    "parse_int_part r0 = Some (i, r1)" "parse_fraction r1 = Some (f, r2)" "parse_exponent r2 = Some (x, r)"
    by (auto simp: parse_number_def split: option.splits)
  then have "length r \<le> length r0"
    using parse_int_part_length parse_fraction_length parse_exponent_length
    by (meson order_trans)
  with r0 show ?thesis
    by simp
qed

lemma parse_length:
  "(\<forall>cs v r. parse_value n cs = Some (v, r) \<longrightarrow> length r \<le> length cs) \<and>
   (\<forall>cs acc v r. parse_elements n cs acc = Some (v, r) \<longrightarrow> length r \<le> length cs) \<and>
   (\<forall>cs acc v r. parse_members n cs acc = Some (v, r) \<longrightarrow> length r \<le> length cs)"
proof (induction n)
  case 0
  show ?case by simp
next
  case (Suc n)
  have val: "\<And>cs v r. parse_value n cs = Some (v, r) \<Longrightarrow> length r \<le> length cs"
    and elems: "\<And>cs acc v r. parse_elements n cs acc = Some (v, r) \<Longrightarrow> length r \<le> length cs"
    and membs: "\<And>cs acc v r. parse_members n cs acc = Some (v, r) \<Longrightarrow> length r \<le> length cs"
    using Suc by blast+
  have v: "length r \<le> length cs" if p: "parse_value (Suc n) cs = Some (v, r)" for cs v r
  proof (cases cs)
    case Nil
    with p show ?thesis by simp
  next
    case (Cons c t)
    consider (obj) "c = LBRACE" | (arr) "c \<noteq> LBRACE" "c = LBRACKET"
      | (str) "c \<noteq> LBRACE" "c \<noteq> LBRACKET" "c = QUOTE"
      | (other) "c \<noteq> LBRACE" "c \<noteq> LBRACKET" "c \<noteq> QUOTE"
      by blast
    then show ?thesis
    proof cases
      case obj
      with p Cons show ?thesis
        using length_skip_ws [of t]
        by (auto split: list.splits if_splits dest!: membs)
    next
      case arr
      with p Cons show ?thesis
        using length_skip_ws [of t]
        by (auto split: list.splits if_splits dest!: elems)
    next
      case str
      with p Cons show ?thesis
        by (auto split: option.splits dest!: parse_string_length)
    next
      case other
      with p Cons show ?thesis
        by (auto split: option.splits if_splits dest!: parse_number_length)
    qed
  qed
  have e: "length r \<le> length cs" if p: "parse_elements (Suc n) cs acc = Some (v, r)" for cs acc v r
  proof -
    from p obtain w r1 where pv: "parse_value n cs = Some (w, r1)"
      by (auto split: option.splits)
    then have r1: "length r1 \<le> length cs"
      by (rule val)
    from p pv obtain d r2 where sk: "skip_ws r1 = d # r2"
      by (auto split: list.splits)
    then have r2: "length r2 < length r1"
      by (rule skip_ws_Cons_length)
    from p pv sk have "(d = COMMA \<and> parse_elements n (skip_ws r2) (acc @ [w]) = Some (v, r)) \<or> r = r2"
      by (auto split: if_splits)
    then show ?thesis
      using r1 r2 length_skip_ws [of r2] by (auto dest!: elems)
  qed
  have m: "length r \<le> length cs" if p: "parse_members (Suc n) cs acc = Some (v, r)" for cs acc v r
  proof -
    from p obtain t where cs: "cs = QUOTE # t"
      by (auto split: list.splits if_splits)
    from p cs obtain k r1 where ps: "parse_string t = Some (k, r1)"
      by (auto split: option.splits)
    then have r1: "length r1 \<le> length t"
      by (rule parse_string_length)
    from p cs ps obtain r2 where sk1: "skip_ws r1 = COLON # r2"
      by (auto split: list.splits if_splits)
    then have r2: "length r2 < length r1"
      by (rule skip_ws_Cons_length)
    from p cs ps sk1 obtain w r3 where pv: "parse_value n (skip_ws r2) = Some (w, r3)"
      by (auto split: option.splits)
    then have r3: "length r3 \<le> length r2"
      using val [OF pv] length_skip_ws [of r2] by simp
    from p cs ps sk1 pv obtain d r4 where sk2: "skip_ws r3 = d # r4"
      by (auto split: list.splits)
    then have r4: "length r4 < length r3"
      by (rule skip_ws_Cons_length)
    from p cs ps sk1 pv sk2
    have "(d = COMMA \<and> parse_members n (skip_ws r4) (define_property k w acc) = Some (v, r)) \<or> r = r4"
      by (auto split: if_splits)
    then show ?thesis
      using cs r1 r2 r3 r4 length_skip_ws [of r4] by (auto dest!: membs)
  qed
  from v e m show ?case
    by blast
qed


lemma parse_value_length: "parse_value n cs = Some (v, r) \<Longrightarrow> length r \<le> length cs"
  using parse_length [of n] by blast

text \<open>Above twice the length of the text the bound plays no part in the result.\<close>

lemma parse_fuel:
  "(\<forall>cs m. 2 * length cs < n \<and> 2 * length cs < m \<longrightarrow> parse_value n cs = parse_value m cs) \<and>
   (\<forall>cs acc m. 2 * length cs + 1 < n \<and> 2 * length cs + 1 < m \<longrightarrow>
      parse_elements n cs acc = parse_elements m cs acc) \<and>
   (\<forall>cs acc m. 2 * length cs + 1 < n \<and> 2 * length cs + 1 < m \<longrightarrow>
      parse_members n cs acc = parse_members m cs acc)"
proof (induction n)
  case 0
  show ?case by simp
next
  case (Suc n)
  have val: "\<And>cs m. 2 * length cs < n \<Longrightarrow> 2 * length cs < m \<Longrightarrow> parse_value n cs = parse_value m cs"
    and elems: "\<And>cs acc m. 2 * length cs + 1 < n \<Longrightarrow> 2 * length cs + 1 < m \<Longrightarrow>
      parse_elements n cs acc = parse_elements m cs acc"
    and membs: "\<And>cs acc m. 2 * length cs + 1 < n \<Longrightarrow> 2 * length cs + 1 < m \<Longrightarrow>
      parse_members n cs acc = parse_members m cs acc"
    using Suc by blast+
  have v: "parse_value (Suc n) cs = parse_value (Suc m) cs"
    if n: "2 * length cs < Suc n" and m: "2 * length cs < Suc m" for cs m
  proof (cases cs)
    case Nil
    then show ?thesis by simp
  next
    case (Cons c t)
    have inner: "parse_members n (d # r') [] = parse_members m (d # r') [] \<and>
        parse_elements n (d # r') [] = parse_elements m (d # r') []" if "skip_ws t = d # r'" for d r'
    proof -
      from that have "length (d # r') \<le> length t"
        using length_skip_ws [of t] by simp
      with Cons n m have "2 * length (d # r') + 1 < n" "2 * length (d # r') + 1 < m"
        by simp_all
      then show ?thesis
        using membs elems by blast
    qed
    show ?thesis
    proof (cases "skip_ws t")
      case Nil
      with Cons show ?thesis by simp
    next
      case (Cons d r')
      with inner [OF Cons] \<open>cs = c # t\<close> show ?thesis
        by auto
    qed
  qed
  have e: "parse_elements (Suc n) cs acc = parse_elements (Suc m) cs acc"
    if n: "2 * length cs + 1 < Suc n" and m: "2 * length cs + 1 < Suc m" for cs acc m
  proof -
    from n m have pv: "parse_value n cs = parse_value m cs"
      by (intro val) simp_all
    show ?thesis
    proof (cases "parse_value m cs")
      case None
      with pv show ?thesis by simp
    next
      case (Some a)
      obtain w r1 where a: "a = (w, r1)"
        by (cases a)
      with Some have r1: "length r1 \<le> length cs"
        using parse_value_length by blast
      show ?thesis
      proof (cases "skip_ws r1")
        case Nil
        with pv Some a show ?thesis by simp
      next
        case (Cons d r2)
        then have "length (skip_ws r2) < length cs"
          using skip_ws_Cons_length [OF Cons] length_skip_ws [of r2] r1 by simp
        with n m have "parse_elements n (skip_ws r2) (acc @ [w]) = parse_elements m (skip_ws r2) (acc @ [w])"
          by (intro elems) simp_all
        with pv Some a Cons show ?thesis
          by simp
      qed
    qed
  qed
  have mm: "parse_members (Suc n) cs acc = parse_members (Suc m) cs acc"
    if n: "2 * length cs + 1 < Suc n" and m: "2 * length cs + 1 < Suc m" for cs acc m
  proof (cases cs)
    case Nil
    then show ?thesis by simp
  next
    case (Cons q t)
    show ?thesis
    proof (cases "parse_string t")
      case None
      with Cons show ?thesis by simp
    next
      case (Some a)
      obtain k r1 where a: "a = (k, r1)"
        by (cases a)
      with Some have r1: "length r1 \<le> length t"
        using parse_string_length by blast
      show ?thesis
      proof (cases "skip_ws r1")
        case Nil
        with Cons Some a show ?thesis by simp
      next
        case sk1: (Cons c r2)
        have r2: "length (skip_ws r2) < length t"
          using skip_ws_Cons_length [OF sk1] length_skip_ws [of r2] r1 by simp
        with Cons n m have pv: "parse_value n (skip_ws r2) = parse_value m (skip_ws r2)"
          by (intro val) simp_all
        show ?thesis
        proof (cases "parse_value m (skip_ws r2)")
          case None
          with Cons Some a sk1 pv show ?thesis by simp
        next
          case pvS: (Some b)
          obtain w r3 where b: "b = (w, r3)"
            by (cases b)
          with pvS have r3: "length r3 \<le> length (skip_ws r2)"
            using parse_value_length by blast
          show ?thesis
          proof (cases "skip_ws r3")
            case Nil
            with Cons Some a sk1 pv pvS b show ?thesis by simp
          next
            case sk2: (Cons d r4)
            have "length (skip_ws r4) < length t"
              using skip_ws_Cons_length [OF sk2] length_skip_ws [of r4] r3 r2 by simp
            with Cons n m have "parse_members n (skip_ws r4) (define_property k w acc) =
                parse_members m (skip_ws r4) (define_property k w acc)"
              by (intro membs) simp_all
            with Cons Some a sk1 pv pvS b sk2 show ?thesis
              by simp
          qed
        qed
      qed
    qed
  qed
  have "parse_value (Suc n) cs = parse_value m cs"
    if "2 * length cs < Suc n" "2 * length cs < m" for cs m
    using that v [of cs "m - 1"] by (cases m) simp_all
  moreover have "parse_elements (Suc n) cs acc = parse_elements m cs acc"
    if "2 * length cs + 1 < Suc n" "2 * length cs + 1 < m" for cs acc m
    using that e [of cs "m - 1" acc] by (cases m) simp_all
  moreover have "parse_members (Suc n) cs acc = parse_members m cs acc"
    if "2 * length cs + 1 < Suc n" "2 * length cs + 1 < m" for cs acc m
    using that mm [of cs "m - 1" acc] by (cases m) simp_all
  ultimately show ?case
    by blast
qed

lemma JSON_parse_bound_irrelevant:
  "2 * length input + 2 \<le> n \<Longrightarrow>
   parse_value n (skip_ws input) = parse_value (2 * length input + 2) (skip_ws input)"
proof -
  assume n: "2 * length input + 2 \<le> n"
  have "2 * length (skip_ws input) < n" "2 * length (skip_ws input) < 2 * length input + 2"
    using n length_skip_ws [of input] by simp_all
  then show ?thesis
    using parse_fuel [of n] by blast
qed

section \<open>The session store: properties\<close>

lemma getItem_setItem: "getItem k (setItem k v ls) = Some v"
  by (simp add: getItem_def setItem_def)

lemma getItem_removeItem: "getItem k (removeItem k ls) = None"
  by (simp add: getItem_def removeItem_def)

lemma restore_parsed:
  "getItem wasteless_user (localStorage s) = Some raw \<Longrightarrow> raw \<noteq> [] \<Longrightarrow> JSON_parse raw = Inr v \<Longrightarrow>
   restore s = Inr (s\<lparr>user := v\<rparr>)"
  by (simp add: restore_def)

lemma restore_corrupt:
  "getItem wasteless_user (localStorage s) = Some raw \<Longrightarrow> raw \<noteq> [] \<Longrightarrow> JSON_parse raw = Inl e \<Longrightarrow>
   restore s = Inr (s\<lparr>localStorage := removeItem wasteless_user (localStorage s)\<rparr>)"
  by (simp add: restore_def)

lemma restore_empty:
  "getItem wasteless_user (localStorage s) = Some [] \<Longrightarrow> restore s = Inr s"
  by (simp add: restore_def)

lemma restore_absent:
  "getItem wasteless_user (localStorage s) = None \<Longrightarrow> restore s = Inr s"
  by (simp add: restore_def)

lemma JSON_parse_empty: "JSON_parse [] = Inl SyntaxError"
  by (simp add: JSON_parse_def skip_ws_def numeral_2_eq_2)

text \<open>
  C3, as stated: whatever unparseable text the slot holds when the store starts, the slot
  is deleted. The empty string is unparseable (\<open>JSON.parse("")\<close> throws), but it is
  falsy, so the effect never reaches the \<open>try\<close>: the store starts with no identity
  and the slot stays.
\<close>

theorem restore_keeps_empty_slot:
  "JSON_parse [] = Inl SyntaxError \<and>
   AuthProvider_mount (Map.empty(wasteless_user \<mapsto> [])) =
     Inr \<lparr>user = JNull, localStorage = Map.empty(wasteless_user \<mapsto> [])\<rparr> \<and>
   getItem wasteless_user (Map.empty(wasteless_user \<mapsto> [])) = Some []"
  by (simp add: JSON_parse_empty AuthProvider_mount_def restore_def getItem_def)

text \<open>
  C3, amended: for every non-empty text in the slot that \<open>JSON.parse\<close> rejects, the
  store starts without an exception leaving the effect, with no identity, and with the
  slot deleted. For the empty string it starts the same way, without an exception and
  with no identity, and leaves the slot as it is.
\<close>

theorem restore_discards_corrupt_slot:
  "(getItem wasteless_user ls = Some raw \<and> raw \<noteq> [] \<and> JSON_parse raw = Inl e \<longrightarrow>
      AuthProvider_mount ls = Inr \<lparr>user = JNull, localStorage = removeItem wasteless_user ls\<rparr> \<and>
      getItem wasteless_user (removeItem wasteless_user ls) = None) \<and>
   (getItem wasteless_user ls = Some [] \<longrightarrow>
      AuthProvider_mount ls = Inr \<lparr>user = JNull, localStorage = ls\<rparr>)"
  by (simp add: AuthProvider_mount_def restore_def getItem_removeItem)

theorem restore_discards_corrupt_slot_witness:
  "getItem wasteless_user (Map.empty(wasteless_user \<mapsto> js ''{bad'')) = Some (js ''{bad'') \<and>
   js ''{bad'' \<noteq> [] \<and>
   JSON_parse (js ''{bad'') = Inl SyntaxError \<and>
   AuthProvider_mount (Map.empty(wasteless_user \<mapsto> js ''{bad'')) =
     Inr \<lparr>user = JNull, localStorage = removeItem wasteless_user (Map.empty(wasteless_user \<mapsto> js ''{bad''))\<rparr> \<and>
   getItem wasteless_user (removeItem wasteless_user (Map.empty(wasteless_user \<mapsto> js ''{bad''))) = None"
proof -
  have slot: "getItem wasteless_user (Map.empty(wasteless_user \<mapsto> js ''{bad'')) = Some (js ''{bad'')"
    by (simp add: getItem_def)
  have nonempty: "js ''{bad'' \<noteq> []"
    by (simp add: js_def)
  have corrupt: "JSON_parse (js ''{bad'') = Inl SyntaxError"
    by code_simp
  from slot nonempty corrupt
    restore_discards_corrupt_slot [of "Map.empty(wasteless_user \<mapsto> js ''{bad'')" "js ''{bad''" SyntaxError]
  show ?thesis
    by blast
qed

text \<open>
  C4: after \<open>login(u)\<close>, a store that starts afresh on the storage left behind holds
  \<open>u\<close> again, with no second login: \<open>JSON.parse\<close> reads back from the text
  \<open>JSON.stringify\<close> wrote exactly the object of \<open>u\<close>, and different users are
  different objects.
\<close>

theorem login_then_restart_restores:
  "AuthProvider_mount (localStorage (login u s)) =
     Inr \<lparr>user = User_value u, localStorage = localStorage (login u s)\<rparr> \<and>
   JSON_parse (JSON_stringify_User u) = Inr (User_value u) \<and>
   inj User_value"
proof -
  have "getItem wasteless_user (localStorage (login u s)) = Some (JSON_stringify_User u)"
    by (simp add: login_def getItem_setItem)
  then have "AuthProvider_mount (localStorage (login u s)) =
      Inr \<lparr>user = User_value u, localStorage = localStorage (login u s)\<rparr>"
    unfolding AuthProvider_mount_def
    by (subst restore_parsed [where raw = "JSON_stringify_User u" and v = "User_value u"])
       (simp_all add: JSON_stringify_User_not_empty JSON_parse_stringify_User)
  then show ?thesis
    by (simp add: JSON_parse_stringify_User User_value_inj)
qed

theorem login_then_restart_restores_witness:
  "AuthProvider_mount (localStorage (login
      \<lparr>user_id = js ''123'', email = js ''user@wasteless.com'',
        name = [0x4A, 0x22, 0x5C, 0x0A, 0xD83D, 0xDE00, 0xDC00]\<rparr>
      \<lparr>user = JNull, localStorage = Map.empty\<rparr>)) =
     Inr \<lparr>user = User_value
            \<lparr>user_id = js ''123'', email = js ''user@wasteless.com'',
              name = [0x4A, 0x22, 0x5C, 0x0A, 0xD83D, 0xDE00, 0xDC00]\<rparr>,
          localStorage = localStorage (login
            \<lparr>user_id = js ''123'', email = js ''user@wasteless.com'',
              name = [0x4A, 0x22, 0x5C, 0x0A, 0xD83D, 0xDE00, 0xDC00]\<rparr>
            \<lparr>user = JNull, localStorage = Map.empty\<rparr>)\<rparr>"
  using login_then_restart_restores [of
      "\<lparr>user_id = js ''123'', email = js ''user@wasteless.com'',
        name = [0x4A, 0x22, 0x5C, 0x0A, 0xD83D, 0xDE00, 0xDC00]\<rparr>"
      "\<lparr>user = JNull, localStorage = Map.empty\<rparr>"]
  by (rule conjunct1)

text \<open>
  C7: after \<open>login(u)\<close> the consumers see \<open>u\<close> as the user and \<open>isAuthenticated\<close>
  true; the storage holds the serialized \<open>u\<close> under the key \<open>wasteless_user\<close>, and
  no other key is touched. In every state \<open>isAuthenticated\<close> is \<open>user !== null\<close>,
  computed from the user on each render.
\<close>

theorem login_sets_identity:
  "v_user (AuthProvider_value (login u s)) = User_value u \<and>
   v_isAuthenticated (AuthProvider_value (login u s)) \<and>
   getItem wasteless_user (localStorage (login u s)) = Some (JSON_stringify_User u) \<and>
   JSON_parse (JSON_stringify_User u) = Inr (User_value u) \<and>
   (\<forall>k. k \<noteq> wasteless_user \<longrightarrow> getItem k (localStorage (login u s)) = getItem k (localStorage s)) \<and>
   (\<forall>st. v_isAuthenticated (AuthProvider_value st) = (v_user (AuthProvider_value st) \<noteq> JNull))"
  by (simp add: AuthProvider_value_def login_def getItem_def setItem_def User_value_def
      JSON_parse_stringify_User [unfolded User_value_def])

theorem login_sets_identity_witness:
  "js ''theme'' \<noteq> wasteless_user \<and>
   getItem (js ''theme'')
     (localStorage (login \<lparr>user_id = js ''123'', email = js ''user@wasteless.com'', name = js ''John Doe''\<rparr>
        \<lparr>user = JNull, localStorage = Map.empty(js ''theme'' \<mapsto> js ''dark'')\<rparr>)) = Some (js ''dark'') \<and>
   v_isAuthenticated
     (AuthProvider_value (login \<lparr>user_id = js ''123'', email = js ''user@wasteless.com'', name = js ''John Doe''\<rparr>
        \<lparr>user = JNull, localStorage = Map.empty(js ''theme'' \<mapsto> js ''dark'')\<rparr>))"
proof -
  have other: "js ''theme'' \<noteq> wasteless_user"
    by (simp add: js_def wasteless_user_def)
  have before: "getItem (js ''theme'') (localStorage
      \<lparr>user = JNull, localStorage = Map.empty(js ''theme'' \<mapsto> js ''dark'')\<rparr>) = Some (js ''dark'')"
    by (simp add: getItem_def)
  from other before
    login_sets_identity [of "\<lparr>user_id = js ''123'', email = js ''user@wasteless.com'', name = js ''John Doe''\<rparr>"
      "\<lparr>user = JNull, localStorage = Map.empty(js ''theme'' \<mapsto> js ''dark'')\<rparr>"]
  show ?thesis
    by metis
qed

lemma consistent_login: "consistent (login u s)"
  by (simp add: consistent_def slot_value_def login_def getItem_setItem
      JSON_stringify_User_not_empty JSON_parse_stringify_User)

lemma consistent_logout: "consistent (logout s)"
  by (simp add: consistent_def slot_value_def logout_def getItem_removeItem)

lemma consistent_mount: "\<exists>s'. AuthProvider_mount ls = Inr s' \<and> consistent s'"
  by (auto simp: AuthProvider_mount_def restore_def consistent_def slot_value_def getItem_removeItem
      split: option.splits sum.splits)

lemma run_login_state:
  "run_login u p = \<lparr>current = login u (current p), queued = None,
      renders = renders p @ [login u (current p)]\<rparr>"
  by (simp add: run_login_def rerender_if_queued_def render_def setUser_def
      localStorage_setItem_def login_def Let_def)

lemma run_logout_state:
  "run_logout p = \<lparr>current = logout (current p), queued = None,
      renders = renders p @ [logout (current p)]\<rparr>"
  by (simp add: run_logout_def rerender_if_queued_def render_def setUser_def
      localStorage_removeItem_def logout_def Let_def)

lemma run_mount_first:
  "renders (run_mount ls) \<noteq> [] \<and> hd (renders (run_mount ls)) = \<lparr>user = JNull, localStorage = ls\<rparr>"
  by (simp add: run_mount_def run_effect_def rerender_if_queued_def render_def setUser_def
      localStorage_removeItem_def Let_def split: option.splits sum.splits)

lemma run_mount_current:
  "AuthProvider_mount ls = Inr (current (run_mount ls)) \<and> queued (run_mount ls) = None"
  by (simp add: run_mount_def run_effect_def rerender_if_queued_def render_def setUser_def
      localStorage_removeItem_def Let_def AuthProvider_mount_def restore_def
      split: option.splits sum.splits)

lemma run_mount_later:
  "\<forall>s\<in>set (tl (renders (run_mount ls))). s = current (run_mount ls)"
  by (simp add: run_mount_def run_effect_def rerender_if_queued_def render_def setUser_def
      localStorage_removeItem_def Let_def split: option.splits sum.splits)

lemma consistent_first_render:
  "consistent \<lparr>user = JNull, localStorage = ls\<rparr> = (slot_value ls = JNull)"
  by (auto simp: consistent_def)

lemma consistent_run_mount: "consistent (current (run_mount ls))"
  using consistent_mount [of ls] run_mount_current [of ls] by auto


lemma run_login_before_render:
  "current (localStorage_setItem k v (setUser w p)) =
     (current p)\<lparr>localStorage := setItem k v (localStorage (current p))\<rparr> \<and>
   renders (localStorage_setItem k v (setUser w p)) = renders p"
  by (simp add: localStorage_setItem_def setUser_def)

lemma run_logout_before_render:
  "current (localStorage_removeItem k (setUser w p)) =
     (current p)\<lparr>localStorage := removeItem k (localStorage (current p))\<rparr> \<and>
   renders (localStorage_removeItem k (setUser w p)) = renders p"
  by (simp add: localStorage_removeItem_def setUser_def)

text \<open>
  C5, as stated: after every operation of the session store the user in memory and the
  slot agree, and the consumers never see a state in which only one of the two is up to
  date. The provider's first render, before the effect has read the slot, hands the
  consumers no user whatever the slot holds: on the storage a login left behind they
  see no user while the slot holds one.
\<close>

theorem first_render_ignores_slot:
  "slot_value (Map.empty(wasteless_user \<mapsto> JSON_stringify_User \<lparr>user_id = js ''123'', email = js ''user@wasteless.com'', name = js ''John Doe''\<rparr>)) = User_value \<lparr>user_id = js ''123'', email = js ''user@wasteless.com'', name = js ''John Doe''\<rparr> \<and>
   hd (renders (run_mount (Map.empty(wasteless_user \<mapsto> JSON_stringify_User \<lparr>user_id = js ''123'', email = js ''user@wasteless.com'', name = js ''John Doe''\<rparr>)))) = \<lparr>user = JNull, localStorage = (Map.empty(wasteless_user \<mapsto> JSON_stringify_User \<lparr>user_id = js ''123'', email = js ''user@wasteless.com'', name = js ''John Doe''\<rparr>))\<rparr> \<and>
   \<not> consistent (hd (renders (run_mount (Map.empty(wasteless_user \<mapsto> JSON_stringify_User \<lparr>user_id = js ''123'', email = js ''user@wasteless.com'', name = js ''John Doe''\<rparr>)))))"
proof -
  have slot: "slot_value (Map.empty(wasteless_user \<mapsto> JSON_stringify_User \<lparr>user_id = js ''123'', email = js ''user@wasteless.com'', name = js ''John Doe''\<rparr>)) = User_value \<lparr>user_id = js ''123'', email = js ''user@wasteless.com'', name = js ''John Doe''\<rparr>"
    by (simp add: slot_value_def getItem_def JSON_stringify_User_not_empty JSON_parse_stringify_User)
  moreover have "User_value \<lparr>user_id = js ''123'', email = js ''user@wasteless.com'', name = js ''John Doe''\<rparr> \<noteq> JNull"
    by (simp add: User_value_def)
  ultimately show ?thesis
    by (simp only: run_mount_first consistent_first_render simp_thms)
qed

text \<open>
  C5, amended: at every render that follows a \<open>login\<close>, a \<open>logout\<close> or the effect
  at the start of the store, the user handed to the consumers is what the slot stands
  for (nothing when the slot is absent, empty or not JSON, the parsed value otherwise).
  \<open>login\<close> and \<open>logout\<close> write the slot at once and queue the user, which the one
  render after the handler shows: they change both, and no render lies between the two
  writes. The first render at the start hands the consumers no user, which agrees with
  the slot only when the slot stands for nothing.
\<close>

theorem renders_agree_after_operations:
  "renders (run_login u p) = renders p @ [login u (current p)] \<and>
   current (run_login u p) = login u (current p) \<and>
   consistent (login u (current p)) \<and>
   user (login u (current p)) = User_value u \<and>
   getItem wasteless_user (localStorage (login u (current p))) = Some (JSON_stringify_User u) \<and>
   user (current (localStorage_setItem wasteless_user (JSON_stringify_User u)
       (setUser (User_value u) p))) = user (current p) \<and>
   renders (localStorage_setItem wasteless_user (JSON_stringify_User u)
       (setUser (User_value u) p)) = renders p \<and>
   renders (run_logout p) = renders p @ [logout (current p)] \<and>
   current (run_logout p) = logout (current p) \<and>
   consistent (logout (current p)) \<and>
   user (logout (current p)) = JNull \<and>
   getItem wasteless_user (localStorage (logout (current p))) = None \<and>
   user (current (localStorage_removeItem wasteless_user (setUser JNull p))) = user (current p) \<and>
   renders (localStorage_removeItem wasteless_user (setUser JNull p)) = renders p \<and>
   renders (run_mount ls) \<noteq> [] \<and>
   hd (renders (run_mount ls)) = \<lparr>user = JNull, localStorage = ls\<rparr> \<and>
   consistent (hd (renders (run_mount ls))) = (slot_value ls = JNull) \<and>
   (\<forall>s\<in>set (tl (renders (run_mount ls))). consistent s) \<and>
   AuthProvider_mount ls = Inr (current (run_mount ls)) \<and>
   consistent (current (run_mount ls))"
proof -
  have login_part: "renders (run_login u p) = renders p @ [login u (current p)] \<and>
      current (run_login u p) = login u (current p)"
    by (simp add: run_login_state)
  have login_fields: "user (login u (current p)) = User_value u \<and>
      getItem wasteless_user (localStorage (login u (current p))) = Some (JSON_stringify_User u)"
    by (simp add: login_def getItem_setItem)
  have login_before: "user (current (localStorage_setItem wasteless_user (JSON_stringify_User u)
        (setUser (User_value u) p))) = user (current p) \<and>
      renders (localStorage_setItem wasteless_user (JSON_stringify_User u)
        (setUser (User_value u) p)) = renders p"
    by (simp add: run_login_before_render)
  have logout_part: "renders (run_logout p) = renders p @ [logout (current p)] \<and>
      current (run_logout p) = logout (current p)"
    by (simp add: run_logout_state)
  have logout_fields: "user (logout (current p)) = JNull \<and>
      getItem wasteless_user (localStorage (logout (current p))) = None"
    by (simp add: logout_def getItem_removeItem)
  have logout_before: "user (current (localStorage_removeItem wasteless_user (setUser JNull p))) =
        user (current p) \<and>
      renders (localStorage_removeItem wasteless_user (setUser JNull p)) = renders p"
    by (simp add: run_logout_before_render)
  have first: "consistent (hd (renders (run_mount ls))) = (slot_value ls = JNull)"
    by (simp only: run_mount_first consistent_first_render)
  have later: "\<forall>s\<in>set (tl (renders (run_mount ls))). consistent s"
    using run_mount_later [of ls] consistent_run_mount [of ls] by auto
  from login_part login_fields login_before logout_part logout_fields logout_before first later
    consistent_login [of u "current p"] consistent_logout [of "current p"]
    run_mount_first [of ls] run_mount_current [of ls] consistent_run_mount [of ls]
  show ?thesis
    by blast
qed

theorem renders_agree_after_operations_witness:
  "tl (renders (run_mount (Map.empty(wasteless_user \<mapsto> JSON_stringify_User \<lparr>user_id = js ''123'', email = js ''user@wasteless.com'', name = js ''John Doe''\<rparr>)))) = [\<lparr>user = User_value \<lparr>user_id = js ''123'', email = js ''user@wasteless.com'', name = js ''John Doe''\<rparr>, localStorage = (Map.empty(wasteless_user \<mapsto> JSON_stringify_User \<lparr>user_id = js ''123'', email = js ''user@wasteless.com'', name = js ''John Doe''\<rparr>))\<rparr>] \<and>
   consistent \<lparr>user = User_value \<lparr>user_id = js ''123'', email = js ''user@wasteless.com'', name = js ''John Doe''\<rparr>, localStorage = (Map.empty(wasteless_user \<mapsto> JSON_stringify_User \<lparr>user_id = js ''123'', email = js ''user@wasteless.com'', name = js ''John Doe''\<rparr>))\<rparr> \<and>
   renders (run_login \<lparr>user_id = js ''123'', email = js ''user@wasteless.com'', name = js ''John Doe''\<rparr> (run_mount Map.empty)) =
     [\<lparr>user = JNull, localStorage = Map.empty\<rparr>, login \<lparr>user_id = js ''123'', email = js ''user@wasteless.com'', name = js ''John Doe''\<rparr> \<lparr>user = JNull, localStorage = Map.empty\<rparr>]"
proof -
  have second: "tl (renders (run_mount (Map.empty(wasteless_user \<mapsto> JSON_stringify_User \<lparr>user_id = js ''123'', email = js ''user@wasteless.com'', name = js ''John Doe''\<rparr>)))) = [\<lparr>user = User_value \<lparr>user_id = js ''123'', email = js ''user@wasteless.com'', name = js ''John Doe''\<rparr>, localStorage = (Map.empty(wasteless_user \<mapsto> JSON_stringify_User \<lparr>user_id = js ''123'', email = js ''user@wasteless.com'', name = js ''John Doe''\<rparr>))\<rparr>]"
    by (simp add: run_mount_def run_effect_def rerender_if_queued_def render_def setUser_def
        Let_def getItem_def JSON_stringify_User_not_empty JSON_parse_stringify_User)
  have fresh: "run_mount Map.empty =
      \<lparr>current = \<lparr>user = JNull, localStorage = Map.empty\<rparr>, queued = None,
        renders = [\<lparr>user = JNull, localStorage = Map.empty\<rparr>]\<rparr>"
    by (simp add: run_mount_def run_effect_def rerender_if_queued_def render_def Let_def getItem_def)
  from second fresh
    renders_agree_after_operations [of
      "\<lparr>user_id = js ''123'', email = js ''user@wasteless.com'', name = js ''John Doe''\<rparr>"
      "run_mount Map.empty"
      "(Map.empty(wasteless_user \<mapsto> JSON_stringify_User \<lparr>user_id = js ''123'', email = js ''user@wasteless.com'', name = js ''John Doe''\<rparr>))"]
  show ?thesis
    by simp
qed

end
